theory Spec2Isabelle
  imports Main
begin

section \<open>The webhook ping plugin (webhook\_ping.js)\<close>

text \<open>
  The plugin is a Hexo script. Its module body loads the list of already pinged slugs
  from \<^verbatim>\<open>pinged_posts.json\<close>, registers the filter \<^verbatim>\<open>after_post_render\<close> and the hook
  \<^verbatim>\<open>after_generate\<close>, and keeps two module variables, both JavaScript \<^verbatim>\<open>Set\<close>s.

  Modelling decisions:
  \<^item> a JavaScript string is a \<^typ>\<open>string\<close>, read as the bytes of its UTF-8 encoding
    (so equality of strings is equality of byte lists, and percent-encoding works on bytes);
  \<^item> a value that may be \<^verbatim>\<open>undefined\<close> is a \<^typ>\<open>string option\<close>; the slug of a post and the
    configured blog URL are strings when they are present;
  \<^item> a \<^verbatim>\<open>Set\<close> of strings is the list of its members in insertion order;
  \<^item> the text of the persisted file is identified with what \<^verbatim>\<open>JSON.parse\<close> makes of it:
    a syntax error, a value that is not an array, or an array of strings (the only arrays
    the plugin writes); arrays with other members are outside the model;
  \<^item> whether \<^verbatim>\<open>fs.writeFileSync\<close> succeeds is decided by the environment and is an input
    of the completion handler;
  \<^item> every side effect (a log line, a mutation of one of the two sets, an outbound request,
    a file write) is appended to a trace in program order.
\<close>

subsection \<open>JavaScript values\<close>

text \<open>\<^verbatim>\<open>!v\<close> for a value that is a string or undefined: the empty string is falsy.\<close>

fun truthy :: "string option \<Rightarrow> string option" where
  "truthy None = None"
| "truthy (Some s) = (if s = [] then None else Some s)"

text \<open>\<^verbatim>\<open>a || b\<close>\<close>

definition js_or :: "string option \<Rightarrow> string option \<Rightarrow> string option" where
  "js_or a b = (case truthy a of None \<Rightarrow> b | Some s \<Rightarrow> Some s)"

subsection \<open>Sets in insertion order\<close>

type_synonym js_set = "string list"

definition Set_has :: "js_set \<Rightarrow> string \<Rightarrow> bool" where
  "Set_has s x = (x \<in> set s)"

definition Set_add :: "string \<Rightarrow> js_set \<Rightarrow> js_set" where
  "Set_add x s = (if Set_has s x then s else s @ [x])"

text \<open>\<^verbatim>\<open>new Set(array)\<close> adds the members of the array from left to right.\<close>

definition Set_new :: "string list \<Rightarrow> js_set" where
  "Set_new xs = fold Set_add xs []"

definition Set_size :: "js_set \<Rightarrow> nat" where
  "Set_size s = length s"

definition Array_from :: "js_set \<Rightarrow> string list" where
  "Array_from s = s"

subsection \<open>The persisted file\<close>

datatype json = Json_array "string list" | Json_other

datatype file_text = Json_text json | Malformed_text

datatype disk_file = No_file | Unreadable_file | File file_text

datatype exn = Fs_error | Syntax_error

definition fs_existsSync :: "disk_file \<Rightarrow> bool" where
  "fs_existsSync f = (f \<noteq> No_file)"

fun fs_readFileSync :: "disk_file \<Rightarrow> exn + file_text" where
  "fs_readFileSync (File t) = Inr t"
| "fs_readFileSync _ = Inl Fs_error"

fun JSON_parse :: "file_text \<Rightarrow> exn + json" where
  "JSON_parse (Json_text j) = Inr j"
| "JSON_parse Malformed_text = Inl Syntax_error"

definition JSON_stringify :: "string list \<Rightarrow> file_text" where
  "JSON_stringify xs = Json_text (Json_array xs)"

text \<open>
  The outcome of \<^verbatim>\<open>fs.writeFileSync\<close>: the write succeeds, or it throws and leaves
  the file in some state chosen by the environment.
\<close>

datatype write_result = Write_ok | Write_throws disk_file

fun fs_writeFileSync :: "write_result \<Rightarrow> file_text \<Rightarrow> exn + disk_file" where
  "fs_writeFileSync Write_ok t = Inr (File t)"
| "fs_writeFileSync (Write_throws f) t = Inl Fs_error"

fun file_left :: "write_result \<Rightarrow> disk_file \<Rightarrow> disk_file" where
  "file_left Write_ok f = f"
| "file_left (Write_throws f') f = f'"

subsection \<open>Outbound requests\<close>

record headers =
  Content_Type :: string
  Content_Length :: nat

record request_options =
  hostname :: string
  port :: nat
  path :: string
  request_method :: string
  headers :: headers

definition hex_digit :: "nat \<Rightarrow> char" where
  "hex_digit n = ''0123456789ABCDEF'' ! (n mod 16)"

definition percent_byte :: "char \<Rightarrow> string" where
  "percent_byte c = [CHR ''%'', hex_digit (of_char c div 16), hex_digit (of_char c mod 16)]"

definition is_alnum :: "char \<Rightarrow> bool" where
  "is_alnum c = (let n = (of_char c :: nat) in
     (48 \<le> n \<and> n \<le> 57) \<or> (65 \<le> n \<and> n \<le> 90) \<or> (97 \<le> n \<and> n \<le> 122))"

text \<open>
  \<^verbatim>\<open>querystring.escape\<close>: every byte is percent-encoded except the letters, the digits and
  \<^verbatim>\<open>- _ . ! ~ * ' ( )\<close>.
\<close>

definition qs_unescaped :: "char \<Rightarrow> bool" where
  "qs_unescaped c = (is_alnum c \<or> (of_char c :: nat) \<in> {45, 95, 46, 33, 126, 42, 39, 40, 41})"

definition qsEscape :: "string \<Rightarrow> string" where
  "qsEscape s = concat (map (\<lambda>c. if qs_unescaped c then [c] else percent_byte c) s)"

text \<open>
  The inverse of percent-encoding, as the receiver of a form-encoded body applies it
  (\<^verbatim>\<open>%XX\<close> is the byte with hexadecimal value \<^verbatim>\<open>XX\<close>).
\<close>

definition hex_value :: "char \<Rightarrow> nat" where
  "hex_value c = (let n = (of_char c :: nat) in
     if 48 \<le> n \<and> n \<le> 57 then n - 48
     else if 65 \<le> n \<and> n \<le> 70 then n - 55
     else if 97 \<le> n \<and> n \<le> 102 then n - 87
     else 0)"

fun percent_decode :: "string \<Rightarrow> string" where
  "percent_decode (c # a # b # s) =
     (if c = CHR ''%'' then char_of (16 * hex_value a + hex_value b) # percent_decode s
      else c # percent_decode (a # b # s))"
| "percent_decode (c # s) = c # percent_decode s"
| "percent_decode [] = []"

text \<open>
  The characters that no URL component encodes or interprets: letters, digits and
  \<^verbatim>\<open>- . _ ~\<close>.
\<close>

definition unreserved :: "char \<Rightarrow> bool" where
  "unreserved c = (is_alnum c \<or> (of_char c :: nat) \<in> {45, 46, 95, 126})"

text \<open>\<^verbatim>\<open>querystring.stringify({'url': v})\<close>\<close>

definition querystring_stringify_url :: "string \<Rightarrow> string" where
  "querystring_stringify_url v = ''url='' @ qsEscape v"

text \<open>
  \<^verbatim>\<open>new URL(input)\<close> for the inputs the plugin builds, \<^verbatim>\<open>https://<host>?<rest>\<close> with a
  lower-case ASCII host name. The URL parser first strips leading and trailing C0 control
  characters and spaces, then removes every tab and newline; the host ends at the first
  \<^verbatim>\<open>/\<close>, \<^verbatim>\<open>?\<close>, \<^verbatim>\<open>#\<close> or backslash; an empty path of an https URL is \<^verbatim>\<open>/\<close>; the query runs to
  the first \<^verbatim>\<open>#\<close> and is percent-encoded with the special-query set (C0 controls, space,
  \<^verbatim>\<open>" # < > '\<close> and every byte above \<^verbatim>\<open>~\<close>); \<^verbatim>\<open>search\<close> is empty when the query is.
\<close>

record url =
  url_hostname :: string
  url_pathname :: string
  url_search :: string

definition c0_or_space :: "char \<Rightarrow> bool" where
  "c0_or_space c = ((of_char c :: nat) \<le> 32)"

definition tab_or_newline :: "char \<Rightarrow> bool" where
  "tab_or_newline c = ((of_char c :: nat) \<in> {9, 10, 13})"

definition url_trim :: "string \<Rightarrow> string" where
  "url_trim s = rev (dropWhile c0_or_space (rev (dropWhile c0_or_space s)))"

definition query_encoded :: "char \<Rightarrow> bool" where
  "query_encoded c = (let n = (of_char c :: nat) in
     n \<le> 32 \<or> n > 126 \<or> n \<in> {34, 35, 60, 62, 39})"

definition query_encode :: "string \<Rightarrow> string" where
  "query_encode s = concat (map (\<lambda>c. if query_encoded c then percent_byte c else [c]) s)"

definition host_end :: "char \<Rightarrow> bool" where
  "host_end c = ((of_char c :: nat) \<in> {47, 63, 35, 92})"

text \<open>What the trimming leaves of a string that follows a prefix without such characters.\<close>

definition url_rtrim :: "string \<Rightarrow> string" where
  "url_rtrim s = rev (dropWhile c0_or_space (rev s))"

definition URL_new :: "string \<Rightarrow> url" where
  "URL_new input =
    (let s = filter (\<lambda>c. \<not> tab_or_newline c) (url_trim input);
         rest = drop (length ''https://'') s;
         host = takeWhile (\<lambda>c. \<not> host_end c) rest;
         after_host = dropWhile (\<lambda>c. \<not> host_end c) rest;
         query = takeWhile (\<lambda>c. c \<noteq> CHR ''#'') (drop 1 after_host)
     in \<lparr>url_hostname = host,
         url_pathname = ''/'',
         url_search = (if query = [] then [] else ''?'' @ query_encode query)\<rparr>)"

subsection \<open>Log lines, effects and the state of the module\<close>

datatype severity = Info | Warn | Error

datatype message =
    Loaded_previously_pinged
  | No_file_found
  | Error_loading exn
  | Slug_not_found "string option"
  | Url_not_configured string
  | Already_pinged string
  | Already_scheduled string
  | Pinging_new_post string string
  | Response_from string nat string string
  | Problem_with_request string string string
  | Attempting_to_save nat
  | Successfully_saved nat
  | Error_saving exn
  | Might_be_repinged
  | No_new_posts

datatype effect =
    Log severity message
  | Previously_assigned js_set
  | Previously_added string
  | Session_added string
  | Session_cleared
  | Https_request request_options string
  | File_written file_text

record world =
  previouslyPingedSlugs :: js_set
  newSlugsToPingThisSession :: js_set
  pingedPostsFile :: disk_file
  trace :: "effect list"

definition emit :: "effect \<Rightarrow> world \<Rightarrow> world" where
  "emit e w = w\<lparr>trace := trace w @ [e]\<rparr>"

definition log :: "severity \<Rightarrow> message \<Rightarrow> world \<Rightarrow> world" where
  "log sev m w = emit (Log sev m) w"

definition previously_add :: "string \<Rightarrow> world \<Rightarrow> world" where
  "previously_add x w =
     emit (Previously_added x) (w\<lparr>previouslyPingedSlugs := Set_add x (previouslyPingedSlugs w)\<rparr>)"

definition session_add :: "string \<Rightarrow> world \<Rightarrow> world" where
  "session_add x w =
     emit (Session_added x)
       (w\<lparr>newSlugsToPingThisSession := Set_add x (newSlugsToPingThisSession w)\<rparr>)"

definition session_clear :: "world \<Rightarrow> world" where
  "session_clear w = emit Session_cleared (w\<lparr>newSlugsToPingThisSession := []\<rparr>)"

subsection \<open>Loading at start-up (lines 24 to 41)\<close>

definition catch_load :: "exn \<Rightarrow> world \<Rightarrow> world" where
  "catch_load err w = log Error (Error_loading err) w"

definition startup :: "disk_file \<Rightarrow> world" where
  "startup f =
    (let w = \<lparr>previouslyPingedSlugs = [], newSlugsToPingThisSession = [],
              pingedPostsFile = f, trace = []\<rparr>
     in if fs_existsSync f then
          (case fs_readFileSync f of
             Inl err \<Rightarrow> catch_load err w
           | Inr data \<Rightarrow>
              (case JSON_parse data of
                 Inl err \<Rightarrow> catch_load err w
               | Inr (Json_array parsedData) \<Rightarrow>
                   log Info Loaded_previously_pinged
                     (emit (Previously_assigned (Set_new parsedData))
                        (w\<lparr>previouslyPingedSlugs := Set_new parsedData\<rparr>))
               | Inr Json_other \<Rightarrow> w))
        else log Info No_file_found w)"

subsection \<open>The filter after\_post\_render (lines 44 to 117)\<close>

record post_data =
  data_slug :: "string option"
  data_path :: "string option"
  data_source :: "string option"

record config =
  webhook_ping_blog_url :: "string option"

definition webhookTargetUrl :: "string \<Rightarrow> string" where
  "webhookTargetUrl postSlug = ''https://ping.bloggerrolle.de?blog='' @ postSlug"

definition request_options_for :: "string \<Rightarrow> string \<Rightarrow> request_options" where
  "request_options_for postSlug postData =
    (let urlParts = URL_new (webhookTargetUrl postSlug)
     in \<lparr>hostname = url_hostname urlParts,
         port = 443,
         path = url_pathname urlParts @ url_search urlParts,
         request_method = ''POST'',
         headers = \<lparr>Content_Type = ''application/x-www-form-urlencoded'',
                    Content_Length = length postData\<rparr>\<rparr>)"

text \<open>
  \<^verbatim>\<open>https.request(options, callback)\<close>, \<^verbatim>\<open>req.write(postData)\<close> and \<^verbatim>\<open>req.end()\<close>:
  one request over HTTPS with the given options and body. The two callbacks run later,
  see \<open>response_end\<close> and \<open>request_error\<close>.
\<close>

definition https_request :: "request_options \<Rightarrow> string \<Rightarrow> world \<Rightarrow> world" where
  "https_request options postData w = emit (Https_request options postData) w"

definition after_post_render ::
  "config \<Rightarrow> 'a post_data_scheme \<Rightarrow> world \<Rightarrow> 'a post_data_scheme \<times> world" where
  "after_post_render cfg data w =
    (case truthy (data_slug data) of
       None \<Rightarrow> (data, log Warn (Slug_not_found (js_or (data_path data) (data_source data))) w)
     | Some postSlug \<Rightarrow>
        (case truthy (webhook_ping_blog_url cfg) of
           None \<Rightarrow> (data, log Error (Url_not_configured postSlug) w)
         | Some blogUrl \<Rightarrow>
            if Set_has (previouslyPingedSlugs w) postSlug
            then (data, log Info (Already_pinged postSlug) w)
            else if Set_has (newSlugsToPingThisSession w) postSlug
            then (data, log Info (Already_scheduled postSlug) w)
            else
              (let postData = querystring_stringify_url blogUrl;
                   options = request_options_for postSlug postData;
                   w1 = log Info (Pinging_new_post postSlug (webhookTargetUrl postSlug)) w;
                   w2 = session_add postSlug w1;
                   w3 = https_request options postData w2
               in (data, w3))))"

text \<open>The continuations of a request: the end of the response, and an error of the request.\<close>

definition response_end :: "string \<Rightarrow> string \<Rightarrow> nat \<Rightarrow> string list \<Rightarrow> world \<Rightarrow> world" where
  "response_end postSlug target statusCode chunks w =
     log Info (Response_from target statusCode postSlug (concat chunks)) w"

definition request_error :: "string \<Rightarrow> string \<Rightarrow> string \<Rightarrow> world \<Rightarrow> world" where
  "request_error postSlug target e_message w =
     log Error (Problem_with_request target postSlug e_message) w"

subsection \<open>The hook after\_generate (lines 120 to 135)\<close>

definition after_generate :: "write_result \<Rightarrow> world \<Rightarrow> world" where
  "after_generate disk w =
    (if Set_size (newSlugsToPingThisSession w) > 0 then
       (let w1 = log Info (Attempting_to_save (Set_size (newSlugsToPingThisSession w))) w;
            w2 = fold previously_add (newSlugsToPingThisSession w1) w1;
            contents = JSON_stringify (Array_from (previouslyPingedSlugs w2))
        in case fs_writeFileSync disk contents of
             Inr f \<Rightarrow>
               (let w3 = emit (File_written contents) (w2\<lparr>pingedPostsFile := f\<rparr>);
                    w4 = log Info (Successfully_saved (Set_size (previouslyPingedSlugs w3))) w3
                in session_clear w4)
           | Inl err \<Rightarrow>
               (let w3 = w2\<lparr>pingedPostsFile := file_left disk (pingedPostsFile w2)\<rparr>;
                    w4 = log Error (Error_saving err) w3
                in log Warn Might_be_repinged w4))
     else log Info No_new_posts w)"

subsection \<open>Runs of the process\<close>

datatype event =
    Post_rendered config post_data
  | Generation_complete write_result
  | Response_ended string string nat "string list"
  | Request_failed string string string

fun handle :: "event \<Rightarrow> world \<Rightarrow> world" where
  "handle (Post_rendered cfg d) w = snd (after_post_render cfg d w)"
| "handle (Generation_complete disk) w = after_generate disk w"
| "handle (Response_ended slug target status chunks) w = response_end slug target status chunks w"
| "handle (Request_failed slug target msg) w = request_error slug target msg w"

definition run :: "event list \<Rightarrow> world \<Rightarrow> world" where
  "run evs w = fold handle evs w"

text \<open>The completion events among the events of a run.\<close>

fun is_completion :: "event \<Rightarrow> bool" where
  "is_completion (Generation_complete _) = True"
| "is_completion _ = False"

text \<open>The requests and the log lines among a list of effects.\<close>

fun requests :: "effect list \<Rightarrow> (request_options \<times> string) list" where
  "requests [] = []"
| "requests (Https_request opts body # es) = (opts, body) # requests es"
| "requests (_ # es) = requests es"

fun is_log :: "effect \<Rightarrow> bool" where
  "is_log (Log _ _) = True"
| "is_log _ = False"

text \<open>The effects a handler added to the trace of \<open>w\<close> when it produced \<open>w'\<close>.\<close>

definition emitted :: "world \<Rightarrow> world \<Rightarrow> effect list" where
  "emitted w w' = drop (length (trace w)) (trace w')"

subsection \<open>Inputs for scenarios\<close>

text \<open>A post with the given slug, a configuration with and one without the blog URL.\<close>

definition post :: "string \<Rightarrow> post_data" where
  "post i = \<lparr>data_slug = Some i, data_path = None, data_source = None\<rparr>"

definition configured :: "string \<Rightarrow> config" where
  "configured u = \<lparr>webhook_ping_blog_url = Some u\<rparr>"

definition unconfigured :: config where
  "unconfigured = \<lparr>webhook_ping_blog_url = None\<rparr>"

section \<open>Auxiliary facts\<close>

subsection \<open>Sets\<close>

lemma Set_has_iff: "Set_has s x \<longleftrightarrow> x \<in> set s"
  by (simp add: Set_has_def)

lemma set_Set_add: "set (Set_add x s) = insert x (set s)"
  by (auto simp: Set_add_def Set_has_iff)

lemma set_fold_Set_add: "set (fold Set_add xs s) = set xs \<union> set s"
  by (induction xs arbitrary: s) (auto simp: set_Set_add)

lemma set_Set_new: "set (Set_new xs) = set xs"
  by (simp add: Set_new_def set_fold_Set_add)

lemma emitted_append: "trace w' = trace w @ es \<Longrightarrow> emitted w w' = es"
  by (simp add: emitted_def)

lemma fold_previously_add:
  "fold previously_add xs w =
     w\<lparr>previouslyPingedSlugs := fold Set_add xs (previouslyPingedSlugs w),
       trace := trace w @ map Previously_added xs\<rparr>"
  by (induction xs arbitrary: w) (simp_all add: previously_add_def emit_def)

lemma requests_single_log [simp]: "requests [Log sev m] = []"
  by simp

subsection \<open>The branches of the filter\<close>

lemma truthy_Some_iff: "truthy v = Some s \<longleftrightarrow> v = Some s \<and> s \<noteq> []"
  by (cases v) auto

lemma truthy_None_iff: "truthy v = None \<longleftrightarrow> v = None \<or> v = Some []"
  by (cases v) auto

lemma post_slug [simp]: "data_slug (post i) = Some i"
  by (simp add: post_def)

lemma configured_url [simp]: "webhook_ping_blog_url (configured u) = Some u"
  by (simp add: configured_def)

lemma unconfigured_url [simp]: "webhook_ping_blog_url unconfigured = None"
  by (simp add: unconfigured_def)

lemma after_post_render_no_slug:
  "truthy (data_slug d) = None \<Longrightarrow>
   after_post_render cfg d w =
     (d, w\<lparr>trace := trace w @ [Log Warn (Slug_not_found (js_or (data_path d) (data_source d)))]\<rparr>)"
  by (simp add: after_post_render_def log_def emit_def)

lemma after_post_render_no_url:
  "truthy (data_slug d) = Some i \<Longrightarrow> truthy (webhook_ping_blog_url cfg) = None \<Longrightarrow>
   after_post_render cfg d w = (d, w\<lparr>trace := trace w @ [Log Error (Url_not_configured i)]\<rparr>)"
  by (simp add: after_post_render_def log_def emit_def)

lemma after_post_render_pinged:
  "truthy (data_slug d) = Some i \<Longrightarrow> truthy (webhook_ping_blog_url cfg) = Some u \<Longrightarrow>
   i \<in> set (previouslyPingedSlugs w) \<Longrightarrow>
   after_post_render cfg d w = (d, w\<lparr>trace := trace w @ [Log Info (Already_pinged i)]\<rparr>)"
  by (simp add: after_post_render_def log_def emit_def Set_has_def)

lemma after_post_render_scheduled:
  "truthy (data_slug d) = Some i \<Longrightarrow> truthy (webhook_ping_blog_url cfg) = Some u \<Longrightarrow>
   i \<notin> set (previouslyPingedSlugs w) \<Longrightarrow> i \<in> set (newSlugsToPingThisSession w) \<Longrightarrow>
   after_post_render cfg d w = (d, w\<lparr>trace := trace w @ [Log Info (Already_scheduled i)]\<rparr>)"
  by (simp add: after_post_render_def log_def emit_def Set_has_def)

lemma after_post_render_new:
  "truthy (data_slug d) = Some i \<Longrightarrow> truthy (webhook_ping_blog_url cfg) = Some u \<Longrightarrow>
   i \<notin> set (previouslyPingedSlugs w) \<Longrightarrow> i \<notin> set (newSlugsToPingThisSession w) \<Longrightarrow>
   after_post_render cfg d w =
     (d, w\<lparr>newSlugsToPingThisSession := newSlugsToPingThisSession w @ [i],
           trace := trace w @
             [Log Info (Pinging_new_post i (webhookTargetUrl i)),
              Session_added i,
              Https_request (request_options_for i (querystring_stringify_url u))
                (querystring_stringify_url u)]\<rparr>)"
  by (simp add: after_post_render_def log_def emit_def Set_has_def session_add_def
      https_request_def Set_add_def Let_def)

lemma after_post_render_new_fields:
  assumes "truthy (data_slug d) = Some i" and "truthy (webhook_ping_blog_url cfg) = Some u"
    and "i \<notin> set (previouslyPingedSlugs w)" and "i \<notin> set (newSlugsToPingThisSession w)"
  shows "newSlugsToPingThisSession (snd (after_post_render cfg d w))
           = newSlugsToPingThisSession w @ [i]"
    and "previouslyPingedSlugs (snd (after_post_render cfg d w)) = previouslyPingedSlugs w"
    and "pingedPostsFile (snd (after_post_render cfg d w)) = pingedPostsFile w"
  by (simp_all add: after_post_render_new [OF assms])

text \<open>Whenever the filter does not send, it adds one log line and nothing else.\<close>

lemma after_post_render_skip:
  assumes "truthy (data_slug d) = None \<or> truthy (webhook_ping_blog_url cfg) = None
         \<or> (\<exists>i. data_slug d = Some i \<and>
               (i \<in> set (previouslyPingedSlugs w) \<or> i \<in> set (newSlugsToPingThisSession w)))"
  shows "\<exists>sev m. after_post_render cfg d w = (d, w\<lparr>trace := trace w @ [Log sev m]\<rparr>)"
proof (cases "truthy (data_slug d)")
  case None
  then show ?thesis by (auto simp: after_post_render_no_slug)
next
  case (Some i)
  note slug = this
  show ?thesis
  proof (cases "truthy (webhook_ping_blog_url cfg)")
    case None
    with slug show ?thesis by (auto simp: after_post_render_no_url)
  next
    case (Some u)
    from slug have i: "data_slug d = Some i" by (simp add: truthy_Some_iff)
    with assms slug Some
    have "i \<in> set (previouslyPingedSlugs w) \<or> i \<in> set (newSlugsToPingThisSession w)"
      by auto
    then show ?thesis
      using slug Some
      by (cases "i \<in> set (previouslyPingedSlugs w)")
        (auto simp: after_post_render_pinged after_post_render_scheduled)
  qed
qed

lemma after_post_render_emitted:
  "(\<exists>sev m. emitted w (snd (after_post_render cfg d w)) = [Log sev m])
   \<or> (\<exists>i u. data_slug d = Some i
          \<and> i \<in> set (newSlugsToPingThisSession (snd (after_post_render cfg d w)))
          \<and> emitted w (snd (after_post_render cfg d w)) =
              [Log Info (Pinging_new_post i (webhookTargetUrl i)),
               Session_added i,
               Https_request (request_options_for i (querystring_stringify_url u))
                 (querystring_stringify_url u)])"
proof (cases "truthy (data_slug d) = None \<or> truthy (webhook_ping_blog_url cfg) = None
         \<or> (\<exists>i. data_slug d = Some i \<and>
               (i \<in> set (previouslyPingedSlugs w) \<or> i \<in> set (newSlugsToPingThisSession w)))")
  case True
  then have "\<exists>sev m. after_post_render cfg d w = (d, w\<lparr>trace := trace w @ [Log sev m]\<rparr>)"
    by (rule after_post_render_skip)
  then show ?thesis
    by (auto simp: emitted_def)
next
  case False
  then obtain i u where iu: "truthy (data_slug d) = Some i"
      "truthy (webhook_ping_blog_url cfg) = Some u"
    by auto
  with False have fresh: "i \<notin> set (previouslyPingedSlugs w)"
      "i \<notin> set (newSlugsToPingThisSession w)"
    by (auto simp: truthy_Some_iff)
  from iu have "data_slug d = Some i"
    by (simp add: truthy_Some_iff)
  then have "data_slug d = Some i
          \<and> i \<in> set (newSlugsToPingThisSession (snd (after_post_render cfg d w)))
          \<and> emitted w (snd (after_post_render cfg d w)) =
              [Log Info (Pinging_new_post i (webhookTargetUrl i)),
               Session_added i,
               Https_request (request_options_for i (querystring_stringify_url u))
                 (querystring_stringify_url u)]"
    by (simp add: after_post_render_new [OF iu fresh] emitted_def)
  then show ?thesis
    by blast
qed

lemma after_post_render_frame:
  "previouslyPingedSlugs (snd (after_post_render cfg d w)) = previouslyPingedSlugs w
   \<and> pingedPostsFile (snd (after_post_render cfg d w)) = pingedPostsFile w
   \<and> (newSlugsToPingThisSession (snd (after_post_render cfg d w)) = newSlugsToPingThisSession w
      \<or> newSlugsToPingThisSession (snd (after_post_render cfg d w)) \<noteq> [])"
  by (simp add: after_post_render_def log_def emit_def session_add_def https_request_def
      Set_add_def Let_def split: option.splits)

subsection \<open>Start-up and the completion hook\<close>

lemma startup_No_file:
  "startup No_file = \<lparr>previouslyPingedSlugs = [], newSlugsToPingThisSession = [],
     pingedPostsFile = No_file, trace = [Log Info No_file_found]\<rparr>"
  by (simp add: startup_def fs_existsSync_def log_def emit_def)

lemma startup_Unreadable_file:
  "startup Unreadable_file = \<lparr>previouslyPingedSlugs = [], newSlugsToPingThisSession = [],
     pingedPostsFile = Unreadable_file, trace = [Log Error (Error_loading Fs_error)]\<rparr>"
  by (simp add: startup_def fs_existsSync_def log_def emit_def catch_load_def)

lemma startup_Malformed_text:
  "startup (File Malformed_text) = \<lparr>previouslyPingedSlugs = [], newSlugsToPingThisSession = [],
     pingedPostsFile = File Malformed_text, trace = [Log Error (Error_loading Syntax_error)]\<rparr>"
  by (simp add: startup_def fs_existsSync_def log_def emit_def catch_load_def)

lemma startup_Json_other:
  "startup (File (Json_text Json_other)) = \<lparr>previouslyPingedSlugs = [],
     newSlugsToPingThisSession = [], pingedPostsFile = File (Json_text Json_other), trace = []\<rparr>"
  by (simp add: startup_def fs_existsSync_def)

lemma startup_Json_array:
  "startup (File (Json_text (Json_array xs))) = \<lparr>previouslyPingedSlugs = Set_new xs,
     newSlugsToPingThisSession = [], pingedPostsFile = File (Json_text (Json_array xs)),
     trace = [Previously_assigned (Set_new xs), Log Info Loaded_previously_pinged]\<rparr>"
  by (simp add: startup_def fs_existsSync_def log_def emit_def)

lemmas startup_simps = startup_No_file startup_Unreadable_file startup_Malformed_text
  startup_Json_other startup_Json_array

lemma file_cases:
  obtains "f = No_file" | "f = Unreadable_file" | "f = File Malformed_text"
    | "f = File (Json_text Json_other)" | xs where "f = File (Json_text (Json_array xs))"
proof (cases f)
  case (File t)
  then show ?thesis
  proof (cases t)
    case (Json_text j)
    with File that show ?thesis by (cases j) auto
  qed (use that in auto)
qed (use that in auto)

lemma startup_file [simp]: "pingedPostsFile (startup f) = f"
  by (cases f rule: file_cases) (simp_all add: startup_simps)

lemma startup_session [simp]: "newSlugsToPingThisSession (startup f) = []"
  by (cases f rule: file_cases) (simp_all add: startup_simps)

lemma after_generate_empty:
  "newSlugsToPingThisSession w = [] \<Longrightarrow>
   after_generate disk w = w\<lparr>trace := trace w @ [Log Info No_new_posts]\<rparr>"
  by (simp add: after_generate_def Set_size_def log_def emit_def)

lemma after_generate_saved:
  "newSlugsToPingThisSession w \<noteq> [] \<Longrightarrow>
   after_generate Write_ok w =
     w\<lparr>previouslyPingedSlugs := fold Set_add (newSlugsToPingThisSession w) (previouslyPingedSlugs w),
       newSlugsToPingThisSession := [],
       pingedPostsFile := File (Json_text (Json_array
          (fold Set_add (newSlugsToPingThisSession w) (previouslyPingedSlugs w)))),
       trace := trace w @ Log Info (Attempting_to_save (length (newSlugsToPingThisSession w)))
          # map Previously_added (newSlugsToPingThisSession w)
          @ [File_written (Json_text (Json_array
               (fold Set_add (newSlugsToPingThisSession w) (previouslyPingedSlugs w)))),
             Log Info (Successfully_saved
               (length (fold Set_add (newSlugsToPingThisSession w) (previouslyPingedSlugs w)))),
             Session_cleared]\<rparr>"
  by (simp add: after_generate_def Set_size_def log_def emit_def fold_previously_add
      JSON_stringify_def Array_from_def session_clear_def Let_def)

lemma after_generate_failed:
  "newSlugsToPingThisSession w \<noteq> [] \<Longrightarrow>
   after_generate (Write_throws f) w =
     w\<lparr>previouslyPingedSlugs := fold Set_add (newSlugsToPingThisSession w) (previouslyPingedSlugs w),
       pingedPostsFile := f,
       trace := trace w @ Log Info (Attempting_to_save (length (newSlugsToPingThisSession w)))
          # map Previously_added (newSlugsToPingThisSession w)
          @ [Log Error (Error_saving Fs_error), Log Warn Might_be_repinged]\<rparr>"
  by (simp add: after_generate_def Set_size_def log_def emit_def fold_previously_add
      JSON_stringify_def Array_from_def Let_def)

lemma reload_saved:
  "newSlugsToPingThisSession w \<noteq> [] \<Longrightarrow>
   set (previouslyPingedSlugs (startup (pingedPostsFile (after_generate Write_ok w))))
     = set (previouslyPingedSlugs w) \<union> set (newSlugsToPingThisSession w)"
  by (auto simp: after_generate_saved startup_Json_array set_Set_new set_fold_Set_add)

text \<open>
  In every state the process can reach, an empty session set means that the file holds
  the members of \<open>previouslyPingedSlugs\<close>: the session set is emptied only at start-up
  and after a successful write.
\<close>

lemma handle_synced:
  assumes "newSlugsToPingThisSession w = [] \<longrightarrow>
      set (previouslyPingedSlugs (startup (pingedPostsFile w))) = set (previouslyPingedSlugs w)"
  shows "newSlugsToPingThisSession (handle e w) = [] \<longrightarrow>
      set (previouslyPingedSlugs (startup (pingedPostsFile (handle e w))))
        = set (previouslyPingedSlugs (handle e w))"
proof (cases e)
  case (Post_rendered cfg d)
  then show ?thesis
    using assms after_post_render_frame [of cfg d w] by auto
next
  case (Generation_complete disk)
  show ?thesis
  proof (cases "newSlugsToPingThisSession w = []")
    case True
    with assms Generation_complete show ?thesis
      by (simp add: after_generate_empty)
  next
    case False
    then show ?thesis
      using Generation_complete
      by (cases disk)
        (simp_all add: after_generate_saved after_generate_failed startup_Json_array
          set_Set_new)
  qed
next
  case (Response_ended i target status chunks)
  with assms show ?thesis
    by (simp add: response_end_def log_def emit_def)
next
  case (Request_failed i target msg)
  with assms show ?thesis
    by (simp add: request_error_def log_def emit_def)
qed

lemma run_synced:
  "newSlugsToPingThisSession w = [] \<longrightarrow>
      set (previouslyPingedSlugs (startup (pingedPostsFile w))) = set (previouslyPingedSlugs w)
   \<Longrightarrow> newSlugsToPingThisSession (run evs w) = [] \<longrightarrow>
      set (previouslyPingedSlugs (startup (pingedPostsFile (run evs w))))
        = set (previouslyPingedSlugs (run evs w))"
  unfolding run_def
proof (induction evs arbitrary: w)
  case Nil
  then show ?case by simp
next
  case (Cons e evs)
  from Cons.IH [OF handle_synced [OF Cons.prems]] show ?case
    by simp
qed

subsection \<open>Slugs that are already known\<close>

text \<open>
  A slug that is in one of the two sets stays in one of them whatever events follow,
  and no later event adds it to the session set again.
\<close>

lemma after_post_render_known:
  assumes "i \<in> set (previouslyPingedSlugs w) \<union> set (newSlugsToPingThisSession w)"
  shows "previouslyPingedSlugs (snd (after_post_render cfg d w)) = previouslyPingedSlugs w"
    and "set (newSlugsToPingThisSession w)
           \<subseteq> set (newSlugsToPingThisSession (snd (after_post_render cfg d w)))"
    and "count_list (newSlugsToPingThisSession (snd (after_post_render cfg d w))) i
           = count_list (newSlugsToPingThisSession w) i"
    and "Session_added i \<notin> set (emitted w (snd (after_post_render cfg d w)))"
  using assms
  by (auto simp: after_post_render_def log_def emit_def session_add_def https_request_def
      Set_add_def Set_has_def emitted_def Let_def split: option.splits)

lemma after_generate_known:
  assumes "i \<in> set (previouslyPingedSlugs w) \<union> set (newSlugsToPingThisSession w)"
  shows "i \<in> set (previouslyPingedSlugs (after_generate disk w))
           \<union> set (newSlugsToPingThisSession (after_generate disk w))"
    and "count_list (newSlugsToPingThisSession (after_generate disk w)) i
           \<le> count_list (newSlugsToPingThisSession w) i"
    and "Session_added i \<notin> set (emitted w (after_generate disk w))"
proof -
  show "i \<in> set (previouslyPingedSlugs (after_generate disk w))
           \<union> set (newSlugsToPingThisSession (after_generate disk w))"
    using assms
    by (cases "newSlugsToPingThisSession w = []"; cases disk)
      (auto simp: after_generate_empty after_generate_saved after_generate_failed
        set_fold_Set_add)
  show "count_list (newSlugsToPingThisSession (after_generate disk w)) i
           \<le> count_list (newSlugsToPingThisSession w) i"
    by (cases "newSlugsToPingThisSession w = []"; cases disk)
      (simp_all add: after_generate_empty after_generate_saved after_generate_failed)
  show "Session_added i \<notin> set (emitted w (after_generate disk w))"
    by (cases "newSlugsToPingThisSession w = []"; cases disk)
      (auto simp: after_generate_empty after_generate_saved after_generate_failed emitted_def)
qed

lemma handle_trace: "\<exists>es. trace (handle e w) = trace w @ es"
proof (cases e)
  case (Post_rendered cfg d)
  then show ?thesis
    by (simp add: after_post_render_def log_def emit_def session_add_def https_request_def
        Let_def split: option.splits)
next
  case (Generation_complete disk)
  then show ?thesis
    by (cases "newSlugsToPingThisSession w = []"; cases disk)
      (simp_all add: after_generate_empty after_generate_saved after_generate_failed)
next
  case (Response_ended i target status chunks)
  then show ?thesis by (simp add: response_end_def log_def emit_def)
next
  case (Request_failed i target msg)
  then show ?thesis by (simp add: request_error_def log_def emit_def)
qed

lemma run_trace: "\<exists>es. trace (run evs w) = trace w @ es"
  unfolding run_def
proof (induction evs arbitrary: w)
  case Nil
  show ?case by simp
next
  case (Cons e evs)
  obtain es1 where "trace (handle e w) = trace w @ es1"
    using handle_trace by blast
  moreover obtain es2 where "trace (fold handle evs (handle e w)) = trace (handle e w) @ es2"
    using Cons.IH by blast
  ultimately show ?case by simp
qed

lemma emitted_run_Cons:
  "emitted w (run (e # evs) w)
     = emitted w (handle e w) @ emitted (handle e w) (run evs (handle e w))"
proof -
  obtain es1 where a: "trace (handle e w) = trace w @ es1"
    using handle_trace by blast
  obtain es2 where b: "trace (run evs (handle e w)) = trace (handle e w) @ es2"
    using run_trace by blast
  have "run (e # evs) w = run evs (handle e w)"
    by (simp add: run_def)
  then show ?thesis
    by (simp add: emitted_def a b)
qed

lemma handle_known:
  assumes "i \<in> set (previouslyPingedSlugs w) \<union> set (newSlugsToPingThisSession w)"
  shows "i \<in> set (previouslyPingedSlugs (handle e w)) \<union> set (newSlugsToPingThisSession (handle e w))"
    and "count_list (newSlugsToPingThisSession (handle e w)) i
           \<le> count_list (newSlugsToPingThisSession w) i"
    and "\<not> is_completion e \<Longrightarrow> count_list (newSlugsToPingThisSession (handle e w)) i
           = count_list (newSlugsToPingThisSession w) i"
    and "Session_added i \<notin> set (emitted w (handle e w))"
proof -
  note apr = after_post_render_known [OF assms]
  note gen = after_generate_known [OF assms]
  show "i \<in> set (previouslyPingedSlugs (handle e w)) \<union> set (newSlugsToPingThisSession (handle e w))"
  proof (cases e)
    case (Post_rendered cfg d)
    with assms apr(1) [of cfg d] apr(2) [of cfg d] show ?thesis
      by auto
  next
    case (Generation_complete disk)
    with gen(1) [of disk] show ?thesis
      by simp
  next
    case (Response_ended j target status chunks)
    with assms show ?thesis
      by (simp add: response_end_def log_def emit_def)
  next
    case (Request_failed j target msg)
    with assms show ?thesis
      by (simp add: request_error_def log_def emit_def)
  qed
  show "count_list (newSlugsToPingThisSession (handle e w)) i
           \<le> count_list (newSlugsToPingThisSession w) i"
    by (cases e) (simp_all add: apr(3) gen(2) response_end_def request_error_def log_def emit_def)
  show "\<not> is_completion e \<Longrightarrow> count_list (newSlugsToPingThisSession (handle e w)) i
           = count_list (newSlugsToPingThisSession w) i"
    by (cases e) (simp_all add: apr(3) response_end_def request_error_def log_def emit_def)
  show "Session_added i \<notin> set (emitted w (handle e w))"
  proof (cases e)
    case (Post_rendered cfg d)
    then show ?thesis by (simp add: apr(4))
  next
    case (Generation_complete disk)
    then show ?thesis by (simp add: gen(3))
  next
    case (Response_ended j target status chunks)
    then show ?thesis by (simp add: response_end_def log_def emit_def emitted_def)
  next
    case (Request_failed j target msg)
    then show ?thesis by (simp add: request_error_def log_def emit_def emitted_def)
  qed
qed

lemma run_known:
  assumes "i \<in> set (previouslyPingedSlugs w) \<union> set (newSlugsToPingThisSession w)"
  shows "i \<in> set (previouslyPingedSlugs (run evs w)) \<union> set (newSlugsToPingThisSession (run evs w))
    \<and> count_list (newSlugsToPingThisSession (run evs w)) i
           \<le> count_list (newSlugsToPingThisSession w) i
    \<and> (list_all (\<lambda>e. \<not> is_completion e) evs \<longrightarrow>
          count_list (newSlugsToPingThisSession (run evs w)) i
           = count_list (newSlugsToPingThisSession w) i)
    \<and> Session_added i \<notin> set (emitted w (run evs w))"
  using assms
proof (induction evs arbitrary: w)
  case Nil
  then show ?case by (simp add: run_def emitted_def)
next
  case (Cons e evs)
  note step = handle_known [OF Cons.prems, of e]
  note rest = Cons.IH [OF step(1)]
  have r: "run (e # evs) w = run evs (handle e w)"
    by (simp add: run_def)
  show ?case
    unfolding emitted_run_Cons unfolding r
    using step rest by auto
qed

subsection \<open>Percent-encoding and the URL of the request\<close>

lemma hex_value_hex_digit: "n < 16 \<Longrightarrow> hex_value (hex_digit n) = n"
proof -
  assume "n < 16"
  have "\<forall>k\<in>set [0..<16]. hex_value (hex_digit k) = k"
    by code_simp
  with \<open>n < 16\<close> show ?thesis
    by simp
qed

lemma percent_decode_byte: "percent_decode (percent_byte c @ s) = c # percent_decode s"
proof -
  have "(of_char c :: nat) < 16 * 16"
    using nat_of_char_less_256 [of c] by simp
  then have "(of_char c :: nat) div 16 < 16"
    by (simp only: div_less_iff_less_mult)
  then show ?thesis
    by (simp add: percent_byte_def hex_value_hex_digit)
qed

lemma percent_decode_plain: "c \<noteq> CHR ''%'' \<Longrightarrow> percent_decode (c # s) = c # percent_decode s"
  by (cases "(c # s)" rule: percent_decode.cases) simp_all

lemma qs_unescaped_not_percent: "qs_unescaped c \<Longrightarrow> c \<noteq> CHR ''%''"
  by (auto simp: qs_unescaped_def is_alnum_def Let_def)

lemma percent_decode_qsEscape: "percent_decode (qsEscape s) = s"
proof (induction s)
  case Nil
  show ?case by (simp add: qsEscape_def)
next
  case (Cons c s)
  have step: "qsEscape (c # s) = (if qs_unescaped c then [c] else percent_byte c) @ qsEscape s"
    by (simp add: qsEscape_def)
  show ?case
  proof (cases "qs_unescaped c")
    case True
    then show ?thesis
      using Cons.IH by (simp add: step percent_decode_plain qs_unescaped_not_percent)
  next
    case False
    then show ?thesis
      using Cons.IH by (simp add: step percent_decode_byte)
  qed
qed

lemma qsEscape_id: "list_all qs_unescaped s \<Longrightarrow> qsEscape s = s"
  by (induction s) (simp_all add: qsEscape_def)

lemma unreserved_qs_unescaped: "unreserved c \<Longrightarrow> qs_unescaped c"
  by (auto simp: unreserved_def qs_unescaped_def)

lemma unreserved_plain:
  assumes "unreserved c"
  shows "\<not> c0_or_space c" and "\<not> tab_or_newline c" and "c \<noteq> CHR ''#''" and "\<not> query_encoded c"
  using assms
  by (auto simp: unreserved_def is_alnum_def c0_or_space_def tab_or_newline_def
      query_encoded_def Let_def)

lemma query_encode_append: "query_encode (xs @ ys) = query_encode xs @ query_encode ys"
  by (simp add: query_encode_def)

lemma query_encode_id: "\<forall>c\<in>set s. \<not> query_encoded c \<Longrightarrow> query_encode s = s"
  by (induction s) (simp_all add: query_encode_def)

lemma url_trim_target: "url_trim (webhookTargetUrl i) = webhookTargetUrl (url_rtrim i)"
proof -
  have "dropWhile c0_or_space (rev i @ rev ''https://ping.bloggerrolle.de?blog='')
      = dropWhile c0_or_space (rev i) @ rev ''https://ping.bloggerrolle.de?blog=''"
    by (simp add: dropWhile_append c0_or_space_def)
  then show ?thesis
    by (simp add: url_trim_def url_rtrim_def c0_or_space_def webhookTargetUrl_def)
qed

lemma URL_new_target:
  "URL_new (webhookTargetUrl i) =
     \<lparr>url_hostname = ''ping.bloggerrolle.de'', url_pathname = ''/'',
      url_search = ''?blog='' @ query_encode (takeWhile (\<lambda>c. c \<noteq> CHR ''#'')
         (filter (\<lambda>c. \<not> tab_or_newline c) (url_rtrim i)))\<rparr>"
proof -
  have "URL_new (webhookTargetUrl i) =
    (let s = filter (\<lambda>c. \<not> tab_or_newline c) (webhookTargetUrl (url_rtrim i));
         rest = drop (length ''https://'') s;
         host = takeWhile (\<lambda>c. \<not> host_end c) rest;
         after_host = dropWhile (\<lambda>c. \<not> host_end c) rest;
         query = takeWhile (\<lambda>c. c \<noteq> CHR ''#'') (drop 1 after_host)
     in \<lparr>url_hostname = host,
         url_pathname = ''/'',
         url_search = (if query = [] then [] else ''?'' @ query_encode query)\<rparr>)"
    by (simp only: URL_new_def url_trim_target)
  also have "\<dots> = \<lparr>url_hostname = ''ping.bloggerrolle.de'', url_pathname = ''/'',
      url_search = ''?blog='' @ query_encode (takeWhile (\<lambda>c. c \<noteq> CHR ''#'')
         (filter (\<lambda>c. \<not> tab_or_newline c) (url_rtrim i)))\<rparr>"
    by (simp add: webhookTargetUrl_def tab_or_newline_def host_end_def Let_def
        query_encode_def query_encoded_def)
  finally show ?thesis .
qed

lemma url_rtrim_id: "list_all unreserved i \<Longrightarrow> url_rtrim i = i"
proof (cases i rule: rev_cases)
  case Nil
  then show ?thesis by (simp add: url_rtrim_def)
next
  case (snoc xs x)
  assume "list_all unreserved i"
  with snoc have "\<not> c0_or_space x"
    by (simp add: unreserved_plain)
  with snoc show ?thesis
    by (simp add: url_rtrim_def)
qed

lemma request_path_unreserved:
  assumes "list_all unreserved i"
  shows "request_options_for i body =
     \<lparr>hostname = ''ping.bloggerrolle.de'', port = 443, path = ''/?blog='' @ i,
      request_method = ''POST'',
      headers = \<lparr>Content_Type = ''application/x-www-form-urlencoded'',
                 Content_Length = length body\<rparr>\<rparr>"
proof -
  from assms have all: "\<forall>c\<in>set i. unreserved c"
    by (simp add: list_all_iff)
  have f: "filter (\<lambda>c. \<not> tab_or_newline c) i = i"
    using all by (simp add: unreserved_plain)
  have t: "takeWhile (\<lambda>c. c \<noteq> CHR ''#'') i = i"
    using all by (simp add: unreserved_plain)
  have q: "query_encode i = i"
    using all by (simp add: query_encode_id unreserved_plain)
  have "query_encode (takeWhile (\<lambda>c. c \<noteq> CHR ''#'')
         (filter (\<lambda>c. \<not> tab_or_newline c) (url_rtrim i))) = i"
    by (simp only: url_rtrim_id [OF assms] f t q)
  then show ?thesis
    by (simp add: request_options_for_def URL_new_target)
qed

section \<open>The claims\<close>

text \<open>
  Claim C1. A post whose slug is a non-empty string that is in neither set, rendered with
  a configured blog URL, causes exactly one outbound request and is added to
  \<open>newSlugsToPingThisSession\<close> exactly once. A second render event for the same slug
  (with any configuration) sends nothing and leaves both sets as they are, whether it
  comes right after the first or after any other events \<open>evs\<close> of the same process:
  those events do not add the slug to the session set again, so over the first event,
  the events in between and the second event the slug is added exactly once; and as
  long as no completion event is among them the slug occurs once in the session set.
\<close>

theorem render_once_stages_and_dispatches_once:
  assumes "data_slug d = Some i" and "i \<noteq> []"
    and "webhook_ping_blog_url cfg = Some u" and "u \<noteq> []"
    and "i \<notin> set (previouslyPingedSlugs w)"
    and "i \<notin> set (newSlugsToPingThisSession w)"
    and "data_slug d' = Some i"
  shows "(let w1 = snd (after_post_render cfg d w);
              w2 = snd (after_post_render cfg' d' w1);
              w3 = run evs w1;
              w4 = snd (after_post_render cfg' d' w3)
          in requests (emitted w w1) =
               [(request_options_for i (querystring_stringify_url u), querystring_stringify_url u)]
           \<and> newSlugsToPingThisSession w1 = newSlugsToPingThisSession w @ [i]
           \<and> count_list (newSlugsToPingThisSession w1) i = 1
           \<and> previouslyPingedSlugs w1 = previouslyPingedSlugs w
           \<and> requests (emitted w1 w2) = []
           \<and> newSlugsToPingThisSession w2 = newSlugsToPingThisSession w1
           \<and> previouslyPingedSlugs w2 = previouslyPingedSlugs w1
           \<and> Session_added i \<notin> set (emitted w1 w3)
           \<and> count_list (newSlugsToPingThisSession w3) i \<le> 1
           \<and> (list_all (\<lambda>e. \<not> is_completion e) evs \<longrightarrow>
                 count_list (newSlugsToPingThisSession w3) i = 1)
           \<and> requests (emitted w3 w4) = []
           \<and> newSlugsToPingThisSession w4 = newSlugsToPingThisSession w3
           \<and> previouslyPingedSlugs w4 = previouslyPingedSlugs w3
           \<and> count_list (emitted w w4) (Session_added i) = 1)"
proof -
  let ?body = "querystring_stringify_url u"
  let ?w1 = "snd (after_post_render cfg d w)"
  let ?w2 = "snd (after_post_render cfg' d' ?w1)"
  let ?w3 = "run evs ?w1"
  let ?w4 = "snd (after_post_render cfg' d' ?w3)"
  let ?first = "[Log Info (Pinging_new_post i (webhookTargetUrl i)),
              Session_added i,
              Https_request (request_options_for i ?body) ?body]"
  have first: "?w1 = w\<lparr>newSlugsToPingThisSession := newSlugsToPingThisSession w @ [i],
           trace := trace w @ ?first\<rparr>"
    using assms by (subst after_post_render_new [of d i cfg u]) (simp_all add: truthy_Some_iff)
  have staged: "i \<in> set (newSlugsToPingThisSession ?w1)"
    by (simp add: first)
  have skip: "\<exists>sev m. snd (after_post_render cfg' d' s) = s\<lparr>trace := trace s @ [Log sev m]\<rparr>"
    if "i \<in> set (previouslyPingedSlugs s) \<union> set (newSlugsToPingThisSession s)" for s
  proof -
    have "\<exists>sev m. after_post_render cfg' d' s = (d', s\<lparr>trace := trace s @ [Log sev m]\<rparr>)"
      using assms(7) that by (intro after_post_render_skip) blast
    then show ?thesis by force
  qed
  obtain sev m where second: "?w2 = ?w1\<lparr>trace := trace ?w1 @ [Log sev m]\<rparr>"
    using skip [of ?w1] staged by blast
  have a: "requests (emitted w ?w1) = [(request_options_for i ?body, ?body)]"
    by (simp add: first emitted_def)
  have b: "newSlugsToPingThisSession ?w1 = newSlugsToPingThisSession w @ [i]"
    by (simp add: first)
  have c: "count_list (newSlugsToPingThisSession ?w1) i = 1"
    using assms(6) by (simp add: b count_list_0_iff)
  have d: "previouslyPingedSlugs ?w1 = previouslyPingedSlugs w"
    by (simp add: first)
  have e: "requests (emitted ?w1 ?w2) = []"
    by (subst second) (simp add: emitted_def)
  have f: "newSlugsToPingThisSession ?w2 = newSlugsToPingThisSession ?w1"
    by (subst second) simp
  have g: "previouslyPingedSlugs ?w2 = previouslyPingedSlugs ?w1"
    by (subst second) simp
  have known1: "i \<in> set (previouslyPingedSlugs ?w1) \<union> set (newSlugsToPingThisSession ?w1)"
    using staged by simp
  note later = run_known [OF known1, of evs]
  have h: "Session_added i \<notin> set (emitted ?w1 ?w3)"
    using later by blast
  have k: "count_list (newSlugsToPingThisSession ?w3) i \<le> 1"
    using later c by simp
  have l: "list_all (\<lambda>e. \<not> is_completion e) evs \<longrightarrow>
                 count_list (newSlugsToPingThisSession ?w3) i = 1"
    using later c by simp
  have known3: "i \<in> set (previouslyPingedSlugs ?w3) \<union> set (newSlugsToPingThisSession ?w3)"
    using later by blast
  obtain sev' m' where last: "?w4 = ?w3\<lparr>trace := trace ?w3 @ [Log sev' m']\<rparr>"
    using skip [OF known3] by blast
  have n: "requests (emitted ?w3 ?w4) = []"
    by (subst last) (simp add: emitted_def)
  have p: "newSlugsToPingThisSession ?w4 = newSlugsToPingThisSession ?w3"
    by (subst last) simp
  have q: "previouslyPingedSlugs ?w4 = previouslyPingedSlugs ?w3"
    by (subst last) simp
  obtain es where es: "trace ?w3 = trace ?w1 @ es"
    using run_trace by blast
  then have "emitted ?w1 ?w3 = es"
    by (simp add: emitted_def)
  with h have none: "count_list es (Session_added i) = 0"
    by (simp add: count_list_0_iff)
  have t1: "trace ?w1 = trace w @ ?first"
    by (simp add: first)
  have "trace ?w4 = trace w @ ?first @ es @ [Log sev' m']"
    by (subst last) (simp add: es t1)
  then have "emitted w ?w4 = ?first @ es @ [Log sev' m']"
    by (simp add: emitted_def)
  then have r: "count_list (emitted w ?w4) (Session_added i) = 1"
    using none by simp
  show ?thesis
    unfolding Let_def by (intro conjI a b c d e f g h k l n p q r)
qed

text \<open>
  C1 at a concrete input: after a start without a file the slugs \<open>a\<close>, \<open>b\<close>, \<open>a\<close>
  are rendered.
\<close>

theorem render_once_stages_and_dispatches_once_witness:
  "(let c = configured ''https://x.test'';
        w = startup No_file;
        w1 = snd (after_post_render c (post ''a'') w);
        w3 = run [Post_rendered c (post ''b'')] w1;
        w4 = snd (after_post_render c (post ''a'') w3)
    in length (requests (emitted w w1)) = 1
     \<and> newSlugsToPingThisSession w1 = [''a'']
     \<and> newSlugsToPingThisSession w3 = [''a'', ''b'']
     \<and> list_all (\<lambda>e. \<not> is_completion e) [Post_rendered c (post ''b'')]
     \<and> count_list (newSlugsToPingThisSession w3) ''a'' = 1
     \<and> requests (emitted w3 w4) = []
     \<and> newSlugsToPingThisSession w4 = [''a'', ''b'']
     \<and> count_list (emitted w w4) (Session_added ''a'') = 1)"
proof -
  let ?c = "configured ''https://x.test''"
  let ?s = "startup No_file"
  let ?w1 = "snd (after_post_render ?c (post ''a'') ?s)"
  let ?evs = "[Post_rendered ?c (post ''b'')]"
  have h: "''a'' \<noteq> []" "''https://x.test'' \<noteq> []"
    "''a'' \<notin> set (previouslyPingedSlugs ?s)"
    "''a'' \<notin> set (newSlugsToPingThisSession ?s)"
    by (simp_all add: startup_No_file)
  have fresh_a: "truthy (data_slug (post ''a'')) = Some ''a''"
    "truthy (webhook_ping_blog_url ?c) = Some ''https://x.test''"
    "''a'' \<notin> set (previouslyPingedSlugs ?s)" "''a'' \<notin> set (newSlugsToPingThisSession ?s)"
    by (simp_all add: startup_No_file)
  have w1: "newSlugsToPingThisSession ?w1 = [''a'']" "previouslyPingedSlugs ?w1 = []"
    using after_post_render_new_fields [OF fresh_a] by (simp_all add: startup_No_file)
  have fresh_b: "truthy (data_slug (post ''b'')) = Some ''b''"
    "truthy (webhook_ping_blog_url ?c) = Some ''https://x.test''"
    "''b'' \<notin> set (previouslyPingedSlugs ?w1)" "''b'' \<notin> set (newSlugsToPingThisSession ?w1)"
    by (simp_all add: w1)
  have w3: "newSlugsToPingThisSession (run ?evs ?w1) = [''a'', ''b'']"
    by (simp add: run_def after_post_render_new_fields [OF fresh_b] w1)
  have nc: "list_all (\<lambda>e. \<not> is_completion e) ?evs"
    by simp
  from render_once_stages_and_dispatches_once
    [OF post_slug h(1) configured_url h(2) h(3) h(4) post_slug,
      where cfg' = ?c and evs = ?evs] nc w3
  show ?thesis
    unfolding Let_def by (simp add: startup_No_file)
qed

text \<open>
  Claim C2. Committing with a successful write and then loading the file again gives the
  union of \<open>previouslyPingedSlugs\<close> and \<open>newSlugsToPingThisSession\<close> as they were
  before the commit. This holds for every state with a non-empty session set (the
  states in which a write is attempted), and for every state the process reaches from a
  start-up by any sequence of events (where an empty session set means nothing is
  written and the file already holds the set). Starting without a file, rendering
  \<open>a\<close> and \<open>b\<close> and committing writes the array \<open>[a, b]\<close>.
\<close>

theorem commit_then_reload_is_union:
  "(newSlugsToPingThisSession w \<noteq> [] \<longrightarrow>
      set (previouslyPingedSlugs (startup (pingedPostsFile (after_generate Write_ok w))))
        = set (previouslyPingedSlugs w) \<union> set (newSlugsToPingThisSession w))
   \<and> (let w0 = run evs (startup f)
      in set (previouslyPingedSlugs (startup (pingedPostsFile (after_generate Write_ok w0))))
        = set (previouslyPingedSlugs w0) \<union> set (newSlugsToPingThisSession w0))
   \<and> pingedPostsFile
        (run [Post_rendered (configured ''https://x.test'') (post ''a''),
              Post_rendered (configured ''https://x.test'') (post ''b''),
              Generation_complete Write_ok] (startup No_file))
      = File (JSON_stringify [''a'', ''b''])"
proof (intro conjI)
  show "newSlugsToPingThisSession w \<noteq> [] \<longrightarrow>
      set (previouslyPingedSlugs (startup (pingedPostsFile (after_generate Write_ok w))))
        = set (previouslyPingedSlugs w) \<union> set (newSlugsToPingThisSession w)"
    by (simp add: reload_saved)
next
  let ?init = "run evs (startup f)"
  have synced: "newSlugsToPingThisSession ?init = [] \<longrightarrow>
      set (previouslyPingedSlugs (startup (pingedPostsFile ?init))) = set (previouslyPingedSlugs ?init)"
    by (rule run_synced) simp
  have "set (previouslyPingedSlugs (startup (pingedPostsFile (after_generate Write_ok ?init))))
        = set (previouslyPingedSlugs ?init) \<union> set (newSlugsToPingThisSession ?init)"
  proof (cases "newSlugsToPingThisSession ?init = []")
    case True
    with synced show ?thesis
      by (simp add: after_generate_empty)
  next
    case False
    then show ?thesis
      by (rule reload_saved)
  qed
  then show "let w0 = run evs (startup f)
      in set (previouslyPingedSlugs (startup (pingedPostsFile (after_generate Write_ok w0))))
        = set (previouslyPingedSlugs w0) \<union> set (newSlugsToPingThisSession w0)"
    by (simp add: Let_def)
next
  let ?c = "configured ''https://x.test''"
  have slug: "truthy (data_slug (post i)) = Some i" if "i \<noteq> []" for i
    using that by (simp add: post_def)
  have url: "truthy (webhook_ping_blog_url ?c) = Some ''https://x.test''"
    by (simp add: configured_def)
  have a: "newSlugsToPingThisSession (snd (after_post_render ?c (post ''a'') (startup No_file)))
      = [''a'']"
    "previouslyPingedSlugs (snd (after_post_render ?c (post ''a'') (startup No_file))) = []"
    by (simp_all add: after_post_render_new [OF slug url] startup_No_file)
  let ?wa = "snd (after_post_render ?c (post ''a'') (startup No_file))"
  have b: "newSlugsToPingThisSession (snd (after_post_render ?c (post ''b'') ?wa))
      = [''a'', ''b'']"
    "previouslyPingedSlugs (snd (after_post_render ?c (post ''b'') ?wa)) = []"
    by (simp_all add: after_post_render_new [OF slug url] a)
  let ?wb = "snd (after_post_render ?c (post ''b'') ?wa)"
  have "pingedPostsFile (after_generate Write_ok ?wb) = File (JSON_stringify [''a'', ''b''])"
    by (simp add: after_generate_saved b JSON_stringify_def Set_add_def Set_has_def)
  then show "pingedPostsFile
        (run [Post_rendered (configured ''https://x.test'') (post ''a''),
              Post_rendered (configured ''https://x.test'') (post ''b''),
              Generation_complete Write_ok] (startup No_file))
      = File (JSON_stringify [''a'', ''b''])"
    by (simp add: run_def)
qed

text \<open>C2 at a concrete input: the file holds \<open>z\<close>, the slug \<open>a\<close> is rendered.\<close>

theorem commit_then_reload_is_union_witness:
  "(let w = snd (after_post_render (configured ''https://x.test'') (post ''a'')
                (startup (File (Json_text (Json_array [''z'']))))) in
    newSlugsToPingThisSession w \<noteq> []
    \<and> set (previouslyPingedSlugs (startup (pingedPostsFile (after_generate Write_ok w))))
        = {''z'', ''a''})"
proof -
  let ?init = "startup (File (Json_text (Json_array [''z''])))"
  let ?w = "snd (after_post_render (configured ''https://x.test'') (post ''a'') ?init)"
  have w0: "previouslyPingedSlugs ?init = [''z'']" "newSlugsToPingThisSession ?init = []"
    by (simp_all add: startup_Json_array Set_new_def Set_add_def Set_has_def)
  have fresh: "truthy (data_slug (post ''a'')) = Some ''a''"
    "truthy (webhook_ping_blog_url (configured ''https://x.test'')) = Some ''https://x.test''"
    "''a'' \<notin> set (previouslyPingedSlugs ?init)" "''a'' \<notin> set (newSlugsToPingThisSession ?init)"
    by (simp_all add: w0)
  have w: "newSlugsToPingThisSession ?w = [''a'']" "previouslyPingedSlugs ?w = [''z'']"
    by (simp_all add: after_post_render_new_fields [OF fresh] w0)
  then have h: "newSlugsToPingThisSession ?w \<noteq> []"
    by simp
  from commit_then_reload_is_union [where w = ?w, THEN conjunct1, rule_format, OF h] h
  show ?thesis
    unfolding Let_def by (simp add: w insert_commute)
qed

text \<open>
  Claim C3. When the write throws, \<open>newSlugsToPingThisSession\<close> after the hook is what
  it was before. The slugs have been merged into \<open>previouslyPingedSlugs\<close> in memory,
  and the next completion event writes them: if that write succeeds, the file holds
  them and the session set is cleared.
\<close>

theorem failed_save_keeps_session:
  "(let w1 = after_generate (Write_throws f) w;
        w2 = after_generate Write_ok w1
    in newSlugsToPingThisSession w1 = newSlugsToPingThisSession w
     \<and> set (newSlugsToPingThisSession w) \<subseteq> set (previouslyPingedSlugs w1)
     \<and> (newSlugsToPingThisSession w \<noteq> [] \<longrightarrow>
          pingedPostsFile w1 = f
        \<and> pingedPostsFile w2 = File (JSON_stringify (previouslyPingedSlugs w2))
        \<and> set (previouslyPingedSlugs w2)
            = set (previouslyPingedSlugs w) \<union> set (newSlugsToPingThisSession w)
        \<and> newSlugsToPingThisSession w2 = []))"
proof (cases "newSlugsToPingThisSession w = []")
  case True
  then show ?thesis
    by (simp add: Let_def after_generate_empty)
next
  case False
  let ?w1 = "after_generate (Write_throws f) w"
  have w1: "?w1 = w\<lparr>previouslyPingedSlugs :=
        fold Set_add (newSlugsToPingThisSession w) (previouslyPingedSlugs w),
       pingedPostsFile := f,
       trace := trace w @ Log Info (Attempting_to_save (length (newSlugsToPingThisSession w)))
          # map Previously_added (newSlugsToPingThisSession w)
          @ [Log Error (Error_saving Fs_error), Log Warn Might_be_repinged]\<rparr>"
    using False by (rule after_generate_failed)
  have still: "newSlugsToPingThisSession ?w1 \<noteq> []"
    using False by (simp add: w1)
  have prev1: "set (previouslyPingedSlugs ?w1)
      = set (newSlugsToPingThisSession w) \<union> set (previouslyPingedSlugs w)"
    by (simp add: w1 set_fold_Set_add)
  have new1: "newSlugsToPingThisSession ?w1 = newSlugsToPingThisSession w"
    "pingedPostsFile ?w1 = f"
    by (simp_all add: w1)
  have w2: "pingedPostsFile (after_generate Write_ok ?w1)
        = File (JSON_stringify (previouslyPingedSlugs (after_generate Write_ok ?w1)))"
    "newSlugsToPingThisSession (after_generate Write_ok ?w1) = []"
    "set (previouslyPingedSlugs (after_generate Write_ok ?w1))
        = set (newSlugsToPingThisSession ?w1) \<union> set (previouslyPingedSlugs ?w1)"
    by (simp_all add: after_generate_saved [OF still] JSON_stringify_def set_fold_Set_add)
  show ?thesis
    unfolding Let_def using new1 prev1 w2 by auto
qed

text \<open>C3 at a concrete input: \<open>a\<close> is rendered, the first write fails, the second succeeds.\<close>

theorem failed_save_keeps_session_witness:
  "(let w = snd (after_post_render (configured ''https://x.test'') (post ''a'') (startup No_file));
        w1 = after_generate (Write_throws Unreadable_file) w;
        w2 = after_generate Write_ok w1
    in newSlugsToPingThisSession w = [''a'']
     \<and> newSlugsToPingThisSession w1 = [''a'']
     \<and> pingedPostsFile w1 = Unreadable_file
     \<and> set (previouslyPingedSlugs w2) = {''a''}
     \<and> pingedPostsFile w2 = File (JSON_stringify (previouslyPingedSlugs w2))
     \<and> newSlugsToPingThisSession w2 = [])"
proof -
  let ?w = "snd (after_post_render (configured ''https://x.test'') (post ''a'') (startup No_file))"
  have w: "newSlugsToPingThisSession ?w = [''a'']" "previouslyPingedSlugs ?w = []"
    by (subst after_post_render_new [where i = "''a''" and u = "''https://x.test''"],
        simp_all add: startup_No_file)+
  from failed_save_keeps_session [where w = ?w and f = Unreadable_file]
  show ?thesis
    unfolding Let_def by (simp add: w)
qed

text \<open>
  Claim C4. A post whose slug is in \<open>previouslyPingedSlugs\<close> causes no outbound request
  and no change of either set or of the file, whatever the configuration.
\<close>

theorem already_pinged_no_dispatch:
  assumes "data_slug d = Some i" and "i \<in> set (previouslyPingedSlugs w)"
  shows "(let w' = snd (after_post_render cfg d w)
          in requests (emitted w w') = []
           \<and> newSlugsToPingThisSession w' = newSlugsToPingThisSession w
           \<and> previouslyPingedSlugs w' = previouslyPingedSlugs w
           \<and> pingedPostsFile w' = pingedPostsFile w)"
proof -
  have "\<exists>sev m. after_post_render cfg d w = (d, w\<lparr>trace := trace w @ [Log sev m]\<rparr>)"
    using assms by (intro after_post_render_skip) blast
  then obtain sev m
    where "snd (after_post_render cfg d w) = w\<lparr>trace := trace w @ [Log sev m]\<rparr>"
    by force
  then show ?thesis
    by (simp add: Let_def emitted_def)
qed

text \<open>C4 at a concrete input: the file holds \<open>a\<close> and \<open>a\<close> is rendered.\<close>

theorem already_pinged_no_dispatch_witness:
  "(let w = startup (File (Json_text (Json_array [''a''])));
        w' = snd (after_post_render (configured ''https://x.test'') (post ''a'') w)
    in previouslyPingedSlugs w = [''a'']
     \<and> requests (emitted w w') = []
     \<and> newSlugsToPingThisSession w' = []
     \<and> previouslyPingedSlugs w' = [''a''])"
proof -
  let ?w = "startup (File (Json_text (Json_array [''a''])))"
  have w: "previouslyPingedSlugs ?w = [''a'']" "newSlugsToPingThisSession ?w = []"
    by (simp_all add: startup_def fs_existsSync_def Set_new_def Set_add_def Set_has_def
        log_def emit_def)
  have h1: "data_slug (post ''a'') = Some ''a''"
    by (simp add: post_def)
  have h2: "''a'' \<in> set (previouslyPingedSlugs ?w)"
    by (simp add: w)
  from already_pinged_no_dispatch [OF h1 h2, of "configured ''https://x.test''"]
  show ?thesis
    by (simp add: Let_def w)
qed

text \<open>
  Claim C5. When the blog URL is unset or empty, the filter sends nothing, adds exactly
  one log line (the error about the configuration when the post has a slug), and
  changes neither set nor the file. What a later render event of the same post sends,
  under any configuration, is therefore what it would have sent without this call.
\<close>

theorem unconfigured_url_changes_nothing:
  assumes "webhook_ping_blog_url cfg = None \<or> webhook_ping_blog_url cfg = Some []"
  shows "(let w' = snd (after_post_render cfg d w)
          in requests (emitted w w') = []
           \<and> (\<exists>sev m. emitted w w' = [Log sev m])
           \<and> (\<forall>i. data_slug d = Some i \<and> i \<noteq> [] \<longrightarrow>
                  emitted w w' = [Log Error (Url_not_configured i)])
           \<and> newSlugsToPingThisSession w' = newSlugsToPingThisSession w
           \<and> previouslyPingedSlugs w' = previouslyPingedSlugs w
           \<and> pingedPostsFile w' = pingedPostsFile w
           \<and> (\<forall>cfg'. requests (emitted w' (snd (after_post_render cfg' d w')))
                    = requests (emitted w (snd (after_post_render cfg' d w)))))"
proof -
  let ?w' = "snd (after_post_render cfg d w)"
  from assms have none: "truthy (webhook_ping_blog_url cfg) = None"
    by (simp add: truthy_None_iff)
  have "\<exists>sev m. after_post_render cfg d w = (d, w\<lparr>trace := trace w @ [Log sev m]\<rparr>)"
    using none by (intro after_post_render_skip) simp
  then obtain sev m where w': "?w' = w\<lparr>trace := trace w @ [Log sev m]\<rparr>"
    by force
  have a: "requests (emitted w ?w') = []" "\<exists>sev m. emitted w ?w' = [Log sev m]"
    "newSlugsToPingThisSession ?w' = newSlugsToPingThisSession w"
    "previouslyPingedSlugs ?w' = previouslyPingedSlugs w"
    "pingedPostsFile ?w' = pingedPostsFile w"
    by (simp_all add: w' emitted_def)
  have b: "\<forall>i. data_slug d = Some i \<and> i \<noteq> [] \<longrightarrow>
                  emitted w ?w' = [Log Error (Url_not_configured i)]"
    using none by (auto simp: after_post_render_no_url truthy_Some_iff emitted_def)
  have c: "requests (emitted (w\<lparr>trace := t\<rparr>) (snd (after_post_render cfg' d (w\<lparr>trace := t\<rparr>))))
         = requests (emitted w (snd (after_post_render cfg' d w)))" for cfg' t
    by (simp add: after_post_render_def emitted_def log_def emit_def session_add_def
        https_request_def Let_def split: option.splits)
  show ?thesis
    unfolding Let_def using a b c [of "trace w @ [Log sev m]"] by (simp add: w')
qed

text \<open>
  C5 at a concrete input: \<open>a\<close> is rendered without a URL, then with one; the second
  event sends one request.
\<close>

theorem unconfigured_url_changes_nothing_witness:
  "(let w = startup No_file;
        w' = snd (after_post_render unconfigured (post ''a'') w)
    in emitted w w' = [Log Error (Url_not_configured ''a'')]
     \<and> newSlugsToPingThisSession w' = []
     \<and> previouslyPingedSlugs w' = []
     \<and> requests (emitted w' (snd (after_post_render (configured ''https://x.test'') (post ''a'') w')))
        = requests (emitted w (snd (after_post_render (configured ''https://x.test'') (post ''a'') w)))
     \<and> length (requests (emitted w
          (snd (after_post_render (configured ''https://x.test'') (post ''a'') w)))) = 1)"
proof -
  have h: "webhook_ping_blog_url unconfigured = None \<or> webhook_ping_blog_url unconfigured = Some []"
    by simp
  have one: "length (requests (emitted (startup No_file)
      (snd (after_post_render (configured ''https://x.test'') (post ''a'') (startup No_file))))) = 1"
    by (subst after_post_render_new [where i = "''a''" and u = "''https://x.test''"])
      (simp_all add: startup_No_file emitted_def)
  from unconfigured_url_changes_nothing [OF h, where w = "startup No_file" and d = "post ''a''"] one
  show ?thesis
    by (simp add: Let_def startup_No_file)
qed

text \<open>
  Claim C6. In the effects of one call of the filter, every outbound request is preceded
  by the addition of the post's slug to \<open>newSlugsToPingThisSession\<close>, and the slug is in
  that set when the filter returns; no response is awaited in between. The two
  continuations of a request (end of the response with any status code and body, and
  request error with any message) only add log lines: they change neither set nor the
  file.
\<close>

theorem staged_before_request_and_callbacks_only_log:
  "(let w' = snd (after_post_render cfg d w); es = emitted w w'
    in \<forall>j<length es. \<forall>opts body. es ! j = Https_request opts body \<longrightarrow>
         (\<exists>k<j. \<exists>i. data_slug d = Some i \<and> es ! k = Session_added i
                  \<and> i \<in> set (newSlugsToPingThisSession w')))
   \<and> (let w' = response_end i target statusCode chunks w
      in previouslyPingedSlugs w' = previouslyPingedSlugs w
       \<and> newSlugsToPingThisSession w' = newSlugsToPingThisSession w
       \<and> pingedPostsFile w' = pingedPostsFile w
       \<and> list_all is_log (emitted w w'))
   \<and> (let w' = request_error i target e_message w
      in previouslyPingedSlugs w' = previouslyPingedSlugs w
       \<and> newSlugsToPingThisSession w' = newSlugsToPingThisSession w
       \<and> pingedPostsFile w' = pingedPostsFile w
       \<and> list_all is_log (emitted w w'))"
proof -
  let ?w' = "snd (after_post_render cfg d w)"
  let ?es = "emitted w ?w'"
  have order: "\<forall>j<length ?es. \<forall>opts body. ?es ! j = Https_request opts body \<longrightarrow>
         (\<exists>k<j. \<exists>i. data_slug d = Some i \<and> ?es ! k = Session_added i
                  \<and> i \<in> set (newSlugsToPingThisSession ?w'))"
    using after_post_render_emitted [of w cfg d]
  proof (elim disjE exE conjE)
    fix sev m assume "?es = [Log sev m]"
    then show ?thesis by simp
  next
    fix i u
    assume i: "data_slug d = Some i" "i \<in> set (newSlugsToPingThisSession ?w')"
      and es: "?es = [Log Info (Pinging_new_post i (webhookTargetUrl i)), Session_added i,
               Https_request (request_options_for i (querystring_stringify_url u))
                 (querystring_stringify_url u)]"
    show ?thesis
    proof (intro allI impI)
      fix j opts body
      assume j: "j < length ?es" and req: "?es ! j = Https_request opts body"
      from j es have "j = 0 \<or> j = 1 \<or> j = 2"
        by auto
      with req es have "j = 2"
        by auto
      then have "1 < j \<and> data_slug d = Some i \<and> ?es ! 1 = Session_added i
          \<and> i \<in> set (newSlugsToPingThisSession ?w')"
        using i es by simp
      then show "\<exists>k<j. \<exists>i. data_slug d = Some i \<and> ?es ! k = Session_added i
                  \<and> i \<in> set (newSlugsToPingThisSession ?w')"
        by blast
    qed
  qed
  have callbacks:
    "previouslyPingedSlugs (log sev m w) = previouslyPingedSlugs w
       \<and> newSlugsToPingThisSession (log sev m w) = newSlugsToPingThisSession w
       \<and> pingedPostsFile (log sev m w) = pingedPostsFile w
       \<and> list_all is_log (emitted w (log sev m w))" for sev m
    by (simp add: log_def emit_def emitted_def)
  show ?thesis
    unfolding Let_def response_end_def request_error_def
    by (intro conjI order callbacks [THEN conjunct1] callbacks [THEN conjunct2, THEN conjunct1]
        callbacks [THEN conjunct2, THEN conjunct2, THEN conjunct1]
        callbacks [THEN conjunct2, THEN conjunct2, THEN conjunct2])
qed

text \<open>C6 at a concrete input: the three effects of rendering \<open>a\<close>.\<close>

theorem staged_before_request_and_callbacks_only_log_witness:
  "(let w = startup No_file;
        w' = snd (after_post_render (configured ''https://x.test'') (post ''a'') w);
        es = emitted w w'
    in length es = 3
     \<and> (\<exists>opts body. es ! 2 = Https_request opts body)
     \<and> (\<exists>k<2. es ! k = Session_added ''a'')
     \<and> ''a'' \<in> set (newSlugsToPingThisSession w'))"
proof -
  let ?w = "startup No_file"
  let ?w' = "snd (after_post_render (configured ''https://x.test'') (post ''a'') ?w)"
  let ?es = "emitted ?w ?w'"
  have es: "length ?es = 3"
    "?es ! 2 = Https_request (request_options_for ''a'' (querystring_stringify_url ''https://x.test''))
        (querystring_stringify_url ''https://x.test'')"
    by (subst after_post_render_new [where i = "''a''" and u = "''https://x.test''"],
        simp_all add: startup_No_file emitted_def)+
  from staged_before_request_and_callbacks_only_log
    [where cfg = "configured ''https://x.test''" and d = "post ''a''" and w = ?w]
  have "\<forall>j<length ?es. \<forall>opts body. ?es ! j = Https_request opts body \<longrightarrow>
         (\<exists>k<j. \<exists>i. data_slug (post ''a'') = Some i \<and> ?es ! k = Session_added i
                  \<and> i \<in> set (newSlugsToPingThisSession ?w'))"
    by (simp add: Let_def)
  with es have "\<exists>k<2. \<exists>i. data_slug (post ''a'') = Some i \<and> ?es ! k = Session_added i
                  \<and> i \<in> set (newSlugsToPingThisSession ?w')"
    by simp
  then have "(\<exists>k<2. ?es ! k = Session_added ''a'') \<and> ''a'' \<in> set (newSlugsToPingThisSession ?w')"
    by auto
  with es show ?thesis
    unfolding Let_def by blast
qed

text \<open>
  Claim C7, as stated, fails: when the file holds valid JSON that is not an array, the
  load logs nothing at all (the store is empty, but no failure is reported).
\<close>

theorem load_is_silent_on_non_array:
  "trace (startup (File (Json_text Json_other))) = []"
  by (simp add: startup_Json_other)

text \<open>
  Claim C7, amended. Loading always completes with an empty session set and leaves the
  file alone. Without a file the store is empty and one informational line is logged.
  When the file cannot be read or is not JSON, the store is empty and one error line
  is logged. When the file holds JSON that is not an array, the store is empty. When
  it holds an array, the store has the members of the array.
\<close>

theorem load_fails_open:
  "newSlugsToPingThisSession (startup f) = []
   \<and> pingedPostsFile (startup f) = f
   \<and> (f = No_file \<longrightarrow>
        previouslyPingedSlugs (startup f) = [] \<and> trace (startup f) = [Log Info No_file_found])
   \<and> (f = Unreadable_file \<or> f = File Malformed_text \<longrightarrow>
        previouslyPingedSlugs (startup f) = []
        \<and> (\<exists>err. trace (startup f) = [Log Error (Error_loading err)]))
   \<and> (f = File (Json_text Json_other) \<longrightarrow> previouslyPingedSlugs (startup f) = [])
   \<and> (\<forall>xs. f = File (Json_text (Json_array xs)) \<longrightarrow>
        set (previouslyPingedSlugs (startup f)) = set xs)"
  by (cases f rule: file_cases) (simp_all add: startup_simps set_Set_new)

text \<open>C7 (amended) at concrete inputs.\<close>

theorem load_fails_open_witness:
  "previouslyPingedSlugs (startup No_file) = []
   \<and> trace (startup No_file) = [Log Info No_file_found]
   \<and> previouslyPingedSlugs (startup (File Malformed_text)) = []
   \<and> (\<exists>err. trace (startup (File Malformed_text)) = [Log Error (Error_loading err)])
   \<and> previouslyPingedSlugs (startup (File (Json_text Json_other))) = []
   \<and> set (previouslyPingedSlugs (startup (File (Json_text (Json_array [''a'', ''b'', ''a'']))))) = {''a'', ''b''}"
  using load_fails_open [of No_file] load_fails_open [of "File Malformed_text"]
    load_fails_open [of "File (Json_text Json_other)"]
    load_fails_open [of "File (Json_text (Json_array [''a'', ''b'', ''a'']))"]
  by auto

text \<open>
  Claim C8, as stated, fails: the host of the request is \<^verbatim>\<open>ping.bloggerrolle.de\<close>, not
  \<^verbatim>\<open>ping.example-target.tld\<close>; and the slug is put into the URL without encoding, so
  for the slug \<^verbatim>\<open>a#b\<close> the request carries \<^verbatim>\<open>blog=a\<close>.
\<close>

theorem webhook_request_not_as_specified:
  "requests (emitted (startup No_file)
      (snd (after_post_render (configured ''https://x.test'') (post ''a'') (startup No_file))))
     = [(\<lparr>hostname = ''ping.bloggerrolle.de'', port = 443, path = ''/?blog=a'',
          request_method = ''POST'',
          headers = \<lparr>Content_Type = ''application/x-www-form-urlencoded'',
                     Content_Length = 24\<rparr>\<rparr>,
         ''url=https%3A%2F%2Fx.test'')]
   \<and> ''ping.bloggerrolle.de'' \<noteq> ''ping.example-target.tld''
   \<and> map (\<lambda>(opts, body). path opts)
       (requests (emitted (startup No_file)
          (snd (after_post_render (configured ''https://x.test'') (post ''a#b'')
             (startup No_file)))))
     = [''/?blog=a'']"
  by code_simp

text \<open>
  Claim C8, amended. For a slug made of letters, digits and \<^verbatim>\<open>- . _ ~\<close> only, the one
  request of a dispatch goes over HTTPS to host \<^verbatim>\<open>ping.bloggerrolle.de\<close>, port 443, with
  method POST, path \<^verbatim>\<open>/?blog=<slug>\<close>, content type
  \<^verbatim>\<open>application/x-www-form-urlencoded\<close>, a content length equal to the length of the
  body, and the body \<^verbatim>\<open>url=\<close> followed by the percent-encoded blog URL. Decoding the
  percent-encoding gives the blog URL back, and a URL made of such characters only is
  sent as it is.
\<close>

theorem webhook_request_format:
  assumes "data_slug d = Some i" and "i \<noteq> []" and "list_all unreserved i"
    and "webhook_ping_blog_url cfg = Some u" and "u \<noteq> []"
    and "i \<notin> set (previouslyPingedSlugs w)"
    and "i \<notin> set (newSlugsToPingThisSession w)"
  shows "requests (emitted w (snd (after_post_render cfg d w))) =
      [(\<lparr>hostname = ''ping.bloggerrolle.de'', port = 443, path = ''/?blog='' @ i,
          request_method = ''POST'',
          headers = \<lparr>Content_Type = ''application/x-www-form-urlencoded'',
                     Content_Length = length (''url='' @ qsEscape u)\<rparr>\<rparr>,
        ''url='' @ qsEscape u)]
    \<and> percent_decode (qsEscape u) = u
    \<and> (list_all unreserved u \<longrightarrow> qsEscape u = u)"
proof -
  have slug: "truthy (data_slug d) = Some i" and url: "truthy (webhook_ping_blog_url cfg) = Some u"
    using assms by simp_all
  have "requests (emitted w (snd (after_post_render cfg d w))) =
      [(request_options_for i (querystring_stringify_url u), querystring_stringify_url u)]"
    by (simp add: after_post_render_new [OF slug url assms(6,7)] emitted_def)
  moreover have "list_all unreserved u \<longrightarrow> qsEscape u = u"
    by (auto intro!: qsEscape_id simp: list_all_iff unreserved_qs_unescaped)
  ultimately show ?thesis
    by (simp add: request_path_unreserved [OF assms(3)] querystring_stringify_url_def
        percent_decode_qsEscape)
qed

text \<open>C8 (amended) at a concrete input: slug \<open>a\<close>, blog URL \<^verbatim>\<open>https://x.test\<close>.\<close>

theorem webhook_request_format_witness:
  "list_all unreserved ''a''
   \<and> requests (emitted (startup No_file)
        (snd (after_post_render (configured ''https://x.test'') (post ''a'') (startup No_file))))
      = [(\<lparr>hostname = ''ping.bloggerrolle.de'', port = 443, path = ''/?blog=a'',
           request_method = ''POST'',
           headers = \<lparr>Content_Type = ''application/x-www-form-urlencoded'',
                      Content_Length = 24\<rparr>\<rparr>,
          ''url=https%3A%2F%2Fx.test'')]"
proof -
  have h: "''a'' \<noteq> []" "list_all unreserved ''a''" "''https://x.test'' \<noteq> []"
    "''a'' \<notin> set (previouslyPingedSlugs (startup No_file))"
    "''a'' \<notin> set (newSlugsToPingThisSession (startup No_file))"
    by (simp_all add: startup_No_file unreserved_def is_alnum_def)
  have esc: "qsEscape ''https://x.test'' = ''https%3A%2F%2Fx.test''"
    by code_simp
  from webhook_request_format [OF post_slug h(1) h(2) configured_url h(3) h(4) h(5)] h(2)
  show ?thesis
    by (simp add: esc)
qed

text \<open>
  Claim C9. In every branch the filter returns the data object it was given, whatever
  other fields that object has.
\<close>

theorem filter_returns_its_argument:
  "fst (after_post_render cfg d w) = d"
  by (simp add: after_post_render_def Let_def split: option.splits)

text \<open>C9 at concrete inputs: a skipped post and a dispatched one.\<close>

theorem filter_returns_its_argument_witness:
  "fst (after_post_render unconfigured (post ''a'') (startup No_file)) = post ''a''
   \<and> fst (after_post_render (configured ''https://x.test'') (post ''a'') (startup No_file))
       = post ''a''"
  using filter_returns_its_argument
      [where cfg = unconfigured and d = "post ''a''" and w = "startup No_file"]
    filter_returns_its_argument
      [where cfg = "configured ''https://x.test''" and d = "post ''a''" and w = "startup No_file"]
  by simp

text \<open>
  Claim C10. A post whose slug is the empty string is handled as a post without a slug:
  one warning is logged, nothing is sent, both sets and the file stay as they are, and
  the resulting state is the one reached for the same post with the slug removed.
\<close>

theorem empty_slug_is_missing_slug:
  assumes "data_slug d = Some []"
  shows "(let w' = snd (after_post_render cfg d w)
          in emitted w w' = [Log Warn (Slug_not_found (js_or (data_path d) (data_source d)))]
           \<and> requests (emitted w w') = []
           \<and> previouslyPingedSlugs w' = previouslyPingedSlugs w
           \<and> newSlugsToPingThisSession w' = newSlugsToPingThisSession w
           \<and> pingedPostsFile w' = pingedPostsFile w
           \<and> w' = snd (after_post_render cfg (d\<lparr>data_slug := None\<rparr>) w))"
proof -
  from assms have "truthy (data_slug d) = None"
    by simp
  then show ?thesis
    by (simp add: Let_def after_post_render_no_slug emitted_def)
qed

text \<open>C10 at a concrete input.\<close>

theorem empty_slug_is_missing_slug_witness:
  "(let w = startup No_file;
        w' = snd (after_post_render (configured ''https://x.test'') (post []) w)
    in emitted w w' = [Log Warn (Slug_not_found None)]
     \<and> requests (emitted w w') = []
     \<and> previouslyPingedSlugs w' = []
     \<and> newSlugsToPingThisSession w' = [])"
proof -
  let ?w = "startup No_file"
  let ?w' = "snd (after_post_render (configured ''https://x.test'') (post []) ?w)"
  have h: "data_slug (post []) = Some []"
    by simp
  have path: "js_or (data_path (post [])) (data_source (post [])) = None"
    by (simp add: post_def js_or_def)
  from empty_slug_is_missing_slug
    [OF h, where w = ?w and cfg = "configured ''https://x.test''"]
  have "emitted ?w ?w' = [Log Warn (Slug_not_found None)]
     \<and> requests (emitted ?w ?w') = []
     \<and> previouslyPingedSlugs ?w' = previouslyPingedSlugs ?w
     \<and> newSlugsToPingThisSession ?w' = newSlugsToPingThisSession ?w"
    unfolding Let_def path by blast
  then show ?thesis
    unfolding Let_def by (simp add: startup_No_file)
qed

end
